theory Spec2Isabelle
  imports Main "HOL-Library.Char_ord" "HOL-Library.List_Lexorder"
begin

section \<open>Process outcomes\<close>

text \<open>
  A slot either returns, leaving a new state, or ends the process. \<open>Fatal\<close> is
  \<^verbatim>\<open>qFatal(msg)\<close>: Qt prints the message and aborts, so the \<^verbatim>\<open>return\<close> written
  after it in the source is never reached. \<open>AssertFailure\<close> is a failed \<^verbatim>\<open>Q_ASSERT_X\<close>
  inside a Qt container.
\<close>

datatype failure = Fatal string | AssertFailure string

section \<open>ShellManager (src/unnamed/part_001)\<close>

subsection \<open>Handler objects and the manager's state\<close>

text \<open>
  A handler is a \<^verbatim>\<open>QObject *\<close>: an address. The manager reads and writes five dynamic
  properties of a handler through \<^verbatim>\<open>property(name)\<close> and \<^verbatim>\<open>setProperty(name, v)\<close>;
  the record holds each one already converted the way the source converts it
  (\<^verbatim>\<open>toBool\<close>, \<^verbatim>\<open>toInt\<close>, \<^verbatim>\<open>toString\<close>). The priority is a C++ \<^verbatim>\<open>int\<close> that is only
  ever compared, never computed with, so it is an \<open>int\<close> here.
\<close>

type_synonym qobject = nat

record properties =
  prop_willing :: bool
  prop_priority :: int
  prop_loaded :: bool
  prop_shell :: string
  prop_path :: string

text \<open>
  \<open>m_handlers\<close> is the candidate container, keyed by the handler's internal name. Its
  declaration (shellmanager.h) is not among the sources; the calls made on it
  (\<^verbatim>\<open>contains\<close>, \<^verbatim>\<open>insert(name, handler)\<close>, \<^verbatim>\<open>key(handler)\<close>, \<^verbatim>\<open>remove\<close>, \<^verbatim>\<open>values\<close>,
  \<^verbatim>\<open>isEmpty\<close>) are the interface of Qt's associative containers \<^verbatim>\<open>QMap\<close> and
  \<^verbatim>\<open>QHash\<close>. Neither enumerates in insertion order: a \<^verbatim>\<open>QMap\<close> enumerates by
  ascending key, a \<^verbatim>\<open>QHash\<close> by hash bucket. The container is modelled as the list of
  its entries in the order in which it enumerates them, and insertion as that of a
  \<^verbatim>\<open>QMap<QString, QObject *>\<close>. Everything proved about \<open>updateShell\<close> below holds for
  any such list, whatever its order.

  \<open>connections\<close> lists the handlers whose signals are connected to the manager's
  slots, and \<open>shellChanged\<close> the arguments of the \<^verbatim>\<open>shellChanged\<close> signals emitted so
  far, oldest first.
\<close>

record shell_manager =
  m_handlers :: "(string \<times> qobject) list"
  m_currentHandler :: "qobject option"
  property :: "qobject \<Rightarrow> properties"
  connections :: "qobject list"
  shellChanged :: "string list"

datatype QDir = QDir string

subsection \<open>The candidate container\<close>

definition handlers_contains :: "string \<Rightarrow> (string \<times> qobject) list \<Rightarrow> bool" where
  "handlers_contains name m = (map_of m name \<noteq> None)"

fun handlers_insert :: "string \<Rightarrow> qobject \<Rightarrow> (string \<times> qobject) list \<Rightarrow> (string \<times> qobject) list" where
  "handlers_insert name handler [] = [(name, handler)]"
| "handlers_insert name handler ((k, v) # rest) =
     (if name = k then (name, handler) # rest
      else if name < k then (name, handler) # (k, v) # rest
      else (k, v) # handlers_insert name handler rest)"

text \<open>\<^verbatim>\<open>key(value)\<close>: the first key holding the value, the default-constructed key
  (the empty string) when no entry holds it.\<close>

fun handlers_key :: "qobject \<Rightarrow> (string \<times> qobject) list \<Rightarrow> string" where
  "handlers_key handler [] = []"
| "handlers_key handler ((k, v) # rest) = (if v = handler then k else handlers_key handler rest)"

definition handlers_remove :: "string \<Rightarrow> (string \<times> qobject) list \<Rightarrow> (string \<times> qobject) list" where
  "handlers_remove name m = filter (\<lambda>e. fst e \<noteq> name) m"

definition handlers_values :: "(string \<times> qobject) list \<Rightarrow> qobject list" where
  "handlers_values m = map snd m"

subsection \<open>Properties\<close>

definition willing :: "shell_manager \<Rightarrow> qobject \<Rightarrow> bool" where
  "willing s handler = prop_willing (property s handler)"

definition priority :: "shell_manager \<Rightarrow> qobject \<Rightarrow> int" where
  "priority s handler = prop_priority (property s handler)"

definition setProperty_loaded :: "qobject \<Rightarrow> bool \<Rightarrow> shell_manager \<Rightarrow> shell_manager" where
  "setProperty_loaded handler b s =
     s\<lparr>property := (property s)(handler := (property s handler)\<lparr>prop_loaded := b\<rparr>)\<rparr>"

definition setProperty_path :: "qobject \<Rightarrow> string \<Rightarrow> shell_manager \<Rightarrow> shell_manager" where
  "setProperty_path handler p s =
     s\<lparr>property := (property s)(handler := (property s handler)\<lparr>prop_path := p\<rparr>)\<rparr>"

subsection \<open>Accessors\<close>

definition shell :: "shell_manager \<Rightarrow> string" where
  "shell s = (case m_currentHandler s of
                Some handler \<Rightarrow> prop_shell (property s handler)
              | None \<Rightarrow> [])"

definition shellDirectory :: "shell_manager \<Rightarrow> QDir" where
  "shellDirectory s = (case m_currentHandler s of
                         Some handler \<Rightarrow> QDir (prop_path (property s handler))
                       | None \<Rightarrow> QDir [])"

subsection \<open>updateShell\<close>

text \<open>The comparison lambda of \<^verbatim>\<open>updateShell\<close>, branch by branch.\<close>

definition compare :: "shell_manager \<Rightarrow> qobject \<Rightarrow> qobject \<Rightarrow> bool" where
  "compare s left right =
     (if willing s left \<and> \<not> willing s right then True
      else if \<not> willing s left \<and> willing s right then False
      else priority s left < priority s right)"

text \<open>
  \<^verbatim>\<open>std::min_element(first, last, comp)\<close> on a non-empty range: it walks the range
  once and moves to an element only when that element compares less than the smallest
  one so far.
\<close>

fun min_element_from :: "('a \<Rightarrow> 'a \<Rightarrow> bool) \<Rightarrow> 'a \<Rightarrow> 'a list \<Rightarrow> 'a" where
  "min_element_from lt smallest [] = smallest"
| "min_element_from lt smallest (x # xs) =
     min_element_from lt (if lt x smallest then x else smallest) xs"

definition updateShell :: "shell_manager \<Rightarrow> failure + shell_manager" where
  "updateShell s =
     (case handlers_values (m_handlers s) of
        [] \<Rightarrow> Inl (Fatal ''No shell handlers installed, cannot continue!'')
      | first # rest \<Rightarrow>
          let handler = min_element_from (compare s) first rest in
          if m_currentHandler s = Some handler then Inr s
          else
            let s1 = (case m_currentHandler s of
                        Some old \<Rightarrow> setProperty_loaded old False s
                      | None \<Rightarrow> s);
                s2 = s1\<lparr>m_currentHandler := Some handler\<rparr>;
                s3 = setProperty_loaded handler True s2;
                currentShell = prop_shell (property s3 handler)
            in Inr (s3\<lparr>shellChanged := shellChanged s3 @ [currentShell]\<rparr>))"

subsection \<open>Registration\<close>

definition registerHandler :: "string \<Rightarrow> qobject \<Rightarrow> shell_manager \<Rightarrow> shell_manager" where
  "registerHandler name handler s =
     s\<lparr>connections := connections s @ [handler],
       m_handlers := handlers_insert name handler (m_handlers s)\<rparr>"

definition deregisterHandler :: "qobject \<Rightarrow> shell_manager \<Rightarrow> failure + shell_manager" where
  "deregisterHandler handler s =
     (let s1 = s\<lparr>m_handlers := handlers_remove (handlers_key handler (m_handlers s)) (m_handlers s)\<rparr>;
          s2 = s1\<lparr>connections := filter (\<lambda>c. c \<noteq> handler) (connections s1)\<rparr>
      in if m_currentHandler s2 = Some handler
         then updateShell (s2\<lparr>m_currentHandler := None\<rparr>)
         else Inr s2)"

text \<open>
  \<^verbatim>\<open>loadHandlers\<close> walks the sub-directories of the shells directory. What it reads
  from the file system is its input here: for each directory whether the metadata
  file is valid, the internal name it gives, the object \<^verbatim>\<open>component.create()\<close>
  returned (none when creation failed) and the absolute path of its contents.
\<close>

record shell_dir =
  metadata_isValid :: bool
  internalName :: string
  created :: "qobject option"
  contents :: string

fun loadHandlers_dirs :: "shell_dir list \<Rightarrow> shell_manager \<Rightarrow> shell_manager" where
  "loadHandlers_dirs [] s = s"
| "loadHandlers_dirs (d # ds) s =
     (if \<not> metadata_isValid d then loadHandlers_dirs ds s
      else if handlers_contains (internalName d) (m_handlers s) then loadHandlers_dirs ds s
      else case created d of
             None \<Rightarrow> loadHandlers_dirs ds s
           | Some handler \<Rightarrow>
               loadHandlers_dirs ds
                 (setProperty_path handler (contents d) (registerHandler (internalName d) handler s)))"

definition loadHandlers :: "shell_dir list \<Rightarrow> shell_manager \<Rightarrow> failure + shell_manager" where
  "loadHandlers ds s = updateShell (loadHandlers_dirs ds s)"

section \<open>DesktopShell (src/unnamed/part_000)\<close>

text \<open>
  The header among the sources (src/src/shells/desktop/desktopshell.h) declares a later
  \<^verbatim>\<open>DesktopShell\<close> without workspaces; the members of this one are read off their
  uses: \<^verbatim>\<open>m_workspaces\<close> and \<^verbatim>\<open>m_windows\<close> are \<^verbatim>\<open>QList\<close>s
  (\<^verbatim>\<open>append\<close>, \<^verbatim>\<open>takeAt\<close>, \<^verbatim>\<open>indexOf\<close>, \<^verbatim>\<open>removeOne\<close>, \<^verbatim>\<open>at\<close>, \<^verbatim>\<open>size\<close>).

  The shell keeps two \<^verbatim>\<open>QList\<close>s of pointers. A \<^verbatim>\<open>Workspace *\<close> is tested against null
  by \<^verbatim>\<open>removeWorkspace\<close>, so it is an optional address; a \<^verbatim>\<open>Window *\<close> is never
  tested, so it is an address. \<open>workspace_objects\<close> holds the \<^verbatim>\<open>Workspace\<close> objects
  that are alive, by address, each with its content; the class itself is not among
  the sources, so the content is a type parameter. \<^verbatim>\<open>delete\<close> takes the object out.
  \<open>unmapped_slots\<close> lists the windows whose \<^verbatim>\<open>unmapped\<close> signal is connected to
  \<^verbatim>\<open>windowUnmapped\<close>, one entry for each \<^verbatim>\<open>connect\<close>.

  \<^verbatim>\<open>Q_EMIT\<close> calls the connected slots at once, in the state the program is in at that
  statement. The observer is a parameter: a function of the signal and of that state,
  and \<open>notified\<close> keeps what it returned for each signal, oldest first.
\<close>

datatype signal = workspaceAdded int | workspaceRemoved int | workspacesChanged | windowsChanged

record ('w, 'o) desktop_shell =
  m_workspaces :: "nat option list"
  m_windows :: "nat list"
  workspace_objects :: "nat \<rightharpoonup> 'w"
  unmapped_slots :: "nat list"
  notified :: "(signal \<times> 'o) list"

type_synonym ('w, 'o) observer = "signal \<Rightarrow> ('w, 'o) desktop_shell \<Rightarrow> 'o"

definition emit :: "('w, 'o) observer \<Rightarrow> signal \<Rightarrow> ('w, 'o) desktop_shell \<Rightarrow> ('w, 'o) desktop_shell" where
  "emit obs sig s = s\<lparr>notified := notified s @ [(sig, obs sig s)]\<rparr>"

definition delete_workspace :: "nat \<Rightarrow> ('w, 'o) desktop_shell \<Rightarrow> ('w, 'o) desktop_shell" where
  "delete_workspace p s = s\<lparr>workspace_objects := (workspace_objects s)(p := None)\<rparr>"

text \<open>
  \<^verbatim>\<open>QList<T>::takeAt(i)\<close> requires \<^verbatim>\<open>0 <= i < size()\<close> and states it as a
  \<^verbatim>\<open>Q_ASSERT_X\<close>, which aborts the process in a build with assertions; without them the
  call is undefined. The model has the assertion.
\<close>

definition takeAt :: "int \<Rightarrow> 'a list \<Rightarrow> failure + ('a \<times> 'a list)" where
  "takeAt i xs =
     (if 0 \<le> i \<and> i < int (length xs)
      then Inr (xs ! nat i, take (nat i) xs @ drop (Suc (nat i)) xs)
      else Inl (AssertFailure ''QList<T>::take: index out of range''))"

fun indexOf_from :: "int \<Rightarrow> 'a \<Rightarrow> 'a list \<Rightarrow> int" where
  "indexOf_from i x [] = - 1"
| "indexOf_from i x (y # ys) = (if y = x then i else indexOf_from (i + 1) x ys)"

definition indexOf :: "'a \<Rightarrow> 'a list \<Rightarrow> int" where
  "indexOf x xs = indexOf_from 0 x xs"

definition removeWorkspace ::
  "('w, 'o) observer \<Rightarrow> int \<Rightarrow> ('w, 'o) desktop_shell \<Rightarrow> failure + ('w, 'o) desktop_shell" where
  "removeWorkspace obs num s =
     (case takeAt num (m_workspaces s) of
        Inl e \<Rightarrow> Inl e
      | Inr (workspace, rest) \<Rightarrow>
          let s1 = s\<lparr>m_workspaces := rest\<rparr> in
          (case workspace of
             None \<Rightarrow> Inr s1
           | Some p \<Rightarrow> Inr (delete_workspace p (emit obs (workspaceRemoved num) s1))))"

definition appendWindow :: "('w, 'o) observer \<Rightarrow> nat \<Rightarrow> ('w, 'o) desktop_shell \<Rightarrow> ('w, 'o) desktop_shell" where
  "appendWindow obs window s =
     (let s1 = s\<lparr>m_windows := m_windows s @ [window]\<rparr>;
          s2 = s1\<lparr>unmapped_slots := unmapped_slots s1 @ [window]\<rparr>
      in emit obs windowsChanged s2)"

definition appendWorkspace ::
  "('w, 'o) observer \<Rightarrow> nat option \<Rightarrow> ('w, 'o) desktop_shell \<Rightarrow> ('w, 'o) desktop_shell" where
  "appendWorkspace obs workspace s =
     (let s1 = s\<lparr>m_workspaces := m_workspaces s @ [workspace]\<rparr>;
          s2 = emit obs (workspaceAdded (indexOf workspace (m_workspaces s1))) s1
      in emit obs workspacesChanged s2)"

definition windowUnmapped :: "('w, 'o) observer \<Rightarrow> nat \<Rightarrow> ('w, 'o) desktop_shell \<Rightarrow> ('w, 'o) desktop_shell" where
  "windowUnmapped obs window s =
     emit obs windowsChanged (s\<lparr>m_windows := remove1 window (m_windows s)\<rparr>)"

definition windowsChanged_count :: "('w, 'o) desktop_shell \<Rightarrow> nat" where
  "windowsChanged_count s = length (filter (\<lambda>n. fst n = windowsChanged) (notified s))"

section \<open>WaylandChrome (src/src/compositor/qml/windows/WaylandChrome.qml)\<close>

text \<open>
  The chrome of one shell surface. \<open>shellSurface\<close> is the surface object the chrome is
  bound to, with the properties the handlers read; \<open>windowType\<close> and
  \<open>parentWlSurface\<close> are the two properties \<^verbatim>\<open>shellSurfaceItem\<close> declares to keep a
  copy for destruction. Animations and calls on other items are recorded: \<open>running\<close>
  lists the animations started and not yet finished, \<open>placements\<close> what
  \<^verbatim>\<open>setPosition\<close> did, \<open>takeFocus_calls\<close> the parent views on which
  \<^verbatim>\<open>takeFocus()\<close> was called, \<open>raised\<close> the calls of \<^verbatim>\<open>chrome.raise()\<close>, and
  \<open>destroyed\<close> whether \<^verbatim>\<open>chrome.destroy()\<close> was called. The movement arithmetic and the
  animation curves are left out, and with them the script action that opens the
  minimize animation, which only stores and moves positions. The output the chrome is
  shown on is taken to exist; its \<^verbatim>\<open>viewsBySurface\<close> is an argument of every handler
  that reads it, as it is at the moment the handler runs.
\<close>

type_synonym surface = nat

definition Qt_Window :: int where "Qt_Window = 1"
definition Qt_SubWindow :: int where "Qt_SubWindow = 18"
definition Qt_Popup :: int where "Qt_Popup = 9"

datatype animation =
  topLevelMapAnimation | topLevelDestroyAnimation
| transientMapAnimation | transientDestroyAnimation
| popupMapAnimation | popupDestroyAnimation
| focusAnimation | minimizeAnimation | unminimizeAnimation

datatype 'v placement = AtParent 'v | RandomPosition

record shell_surface =
  mapped :: bool
  surface_windowType :: int
  surface_parentWlSurface :: "surface option"
  activated :: bool
  minimized :: bool

record 'v chrome =
  shellSurface :: shell_surface
  windowType :: int
  parentWlSurface :: "surface option"
  bufferLocked :: bool
  running :: "animation list"
  placements :: "'v placement list"
  takeFocus_calls :: "'v list"
  raised :: nat
  destroyed :: bool

text \<open>\<^verbatim>\<open>output.viewsBySurface[surface]\<close>: the views of the output by surface. A null
  surface, or one with no view, gives \<^verbatim>\<open>undefined\<close>, which the handlers test.\<close>

type_synonym 'v views = "surface \<rightharpoonup> 'v"

definition lookup_view :: "'v views \<Rightarrow> surface option \<Rightarrow> 'v option" where
  "lookup_view viewsBySurface key = (case key of None \<Rightarrow> None | Some p \<Rightarrow> viewsBySurface p)"

definition start :: "animation \<Rightarrow> 'v chrome \<Rightarrow> 'v chrome" where
  "start a c = c\<lparr>running := running c @ [a]\<rparr>"

definition chrome_destroy :: "'v chrome \<Rightarrow> 'v chrome" where
  "chrome_destroy c = c\<lparr>destroyed := True\<rparr>"

definition setPosition :: "'v views \<Rightarrow> 'v chrome \<Rightarrow> 'v chrome" where
  "setPosition viewsBySurface c =
     (case lookup_view viewsBySurface (surface_parentWlSurface (shellSurface c)) of
        Some parentSurfaceItem \<Rightarrow> c\<lparr>placements := placements c @ [AtParent parentSurfaceItem]\<rparr>
      | None \<Rightarrow> c\<lparr>placements := placements c @ [RandomPosition]\<rparr>)"

definition giveFocusToParent :: "'v views \<Rightarrow> 'v chrome \<Rightarrow> 'v chrome" where
  "giveFocusToParent viewsBySurface c =
     (case lookup_view viewsBySurface (parentWlSurface c) of
        Some parentSurfaceItem \<Rightarrow> c\<lparr>takeFocus_calls := takeFocus_calls c @ [parentSurfaceItem]\<rparr>
      | None \<Rightarrow> c)"

definition onSurfaceDestroyed :: "'v views \<Rightarrow> 'v chrome \<Rightarrow> 'v chrome" where
  "onSurfaceDestroyed viewsBySurface c =
     (let c1 = c\<lparr>bufferLocked := True\<rparr> in
      if windowType c1 = Qt_Window then start topLevelDestroyAnimation c1
      else if windowType c1 = Qt_SubWindow then start transientDestroyAnimation c1
      else if windowType c1 = Qt_Popup then start popupDestroyAnimation c1
      else chrome_destroy (giveFocusToParent viewsBySurface c1))"

definition onMappedChanged :: "'v views \<Rightarrow> 'v chrome \<Rightarrow> 'v chrome" where
  "onMappedChanged viewsBySurface c =
     (if mapped (shellSurface c) then
        let c1 = setPosition viewsBySurface c in
        if windowType c1 = Qt_Window then start topLevelMapAnimation c1
        else if windowType c1 = Qt_SubWindow then start transientMapAnimation c1
        else if windowType c1 = Qt_Popup then start popupMapAnimation c1
        else c1
      else c)"

definition onWindowTypeChanged :: "'v chrome \<Rightarrow> 'v chrome" where
  "onWindowTypeChanged c = c\<lparr>windowType := surface_windowType (shellSurface c)\<rparr>"

definition onParentWlSurfaceChanged :: "'v chrome \<Rightarrow> 'v chrome" where
  "onParentWlSurfaceChanged c = c\<lparr>parentWlSurface := surface_parentWlSurface (shellSurface c)\<rparr>"

definition onActivatedChanged :: "'v chrome \<Rightarrow> 'v chrome" where
  "onActivatedChanged c =
     (if activated (shellSurface c) then start focusAnimation (c\<lparr>raised := Suc (raised c)\<rparr>) else c)"

definition onMinimizedChanged :: "'v chrome \<Rightarrow> 'v chrome" where
  "onMinimizedChanged c =
     (if minimized (shellSurface c) then start minimizeAnimation c else start unminimizeAnimation c)"

text \<open>The \<^verbatim>\<open>ScriptAction\<close> that ends each of the three destroy animations.\<close>

definition scriptAction :: "'v views \<Rightarrow> 'v chrome \<Rightarrow> 'v chrome" where
  "scriptAction viewsBySurface c = chrome_destroy (giveFocusToParent viewsBySurface c)"

fun animation_script :: "'v views \<Rightarrow> animation \<Rightarrow> 'v chrome \<Rightarrow> 'v chrome" where
  "animation_script vs topLevelDestroyAnimation c = scriptAction vs c"
| "animation_script vs transientDestroyAnimation c = scriptAction vs c"
| "animation_script vs popupDestroyAnimation c = scriptAction vs c"
| "animation_script vs topLevelMapAnimation c = c"
| "animation_script vs transientMapAnimation c = c"
| "animation_script vs popupMapAnimation c = c"
| "animation_script vs focusAnimation c = c"
| "animation_script vs minimizeAnimation c = c"
| "animation_script vs unminimizeAnimation c = c"

text \<open>
  An animation that finishes leaves the running ones and runs its script action, if it
  has one. \<open>finish_animations\<close> lets every running animation finish, in the order in
  which they were started.
\<close>

definition animation_finished :: "'v views \<Rightarrow> animation \<Rightarrow> 'v chrome \<Rightarrow> 'v chrome" where
  "animation_finished vs a c = animation_script vs a (c\<lparr>running := remove1 a (running c)\<rparr>)"

definition finish_animations :: "'v views \<Rightarrow> 'v chrome \<Rightarrow> 'v chrome" where
  "finish_animations vs c = fold (animation_finished vs) (running c) c"

text \<open>
  The change signals of the shell surface. A change signal is emitted when the property
  has taken its new value, so delivering one first sets the property of the surface
  and then runs the handler the chrome connects to it.
\<close>

datatype surface_event =
  MappedChanged bool
| WindowTypeChanged int
| ParentWlSurfaceChanged "surface option"
| ActivatedChanged bool
| MinimizedChanged bool

fun deliver :: "'v views \<Rightarrow> surface_event \<Rightarrow> 'v chrome \<Rightarrow> 'v chrome" where
  "deliver vs (MappedChanged b) c =
     onMappedChanged vs (c\<lparr>shellSurface := (shellSurface c)\<lparr>mapped := b\<rparr>\<rparr>)"
| "deliver vs (WindowTypeChanged t) c =
     onWindowTypeChanged (c\<lparr>shellSurface := (shellSurface c)\<lparr>surface_windowType := t\<rparr>\<rparr>)"
| "deliver vs (ParentWlSurfaceChanged p) c =
     onParentWlSurfaceChanged (c\<lparr>shellSurface := (shellSurface c)\<lparr>surface_parentWlSurface := p\<rparr>\<rparr>)"
| "deliver vs (ActivatedChanged b) c =
     onActivatedChanged (c\<lparr>shellSurface := (shellSurface c)\<lparr>activated := b\<rparr>\<rparr>)"
| "deliver vs (MinimizedChanged b) c =
     onMinimizedChanged (c\<lparr>shellSurface := (shellSurface c)\<lparr>minimized := b\<rparr>\<rparr>)"

definition deliver_all :: "'v views \<Rightarrow> surface_event list \<Rightarrow> 'v chrome \<Rightarrow> 'v chrome" where
  "deliver_all vs evs c = fold (deliver vs) evs c"

section \<open>The selection rule as the specification words it\<close>

text \<open>
  \<open>preferred s a b\<close>: candidate \<open>a\<close> is preferred over candidate \<open>b\<close>. A willing
  candidate is preferred over one that is not, whatever the priorities; with equal
  willingness the lower priority value is preferred.
\<close>

definition preferred :: "shell_manager \<Rightarrow> qobject \<Rightarrow> qobject \<Rightarrow> bool" where
  "preferred s a b =
     ((willing s a \<and> \<not> willing s b) \<or> (willing s a = willing s b \<and> priority s a < priority s b))"

text \<open>Every candidate that is marked loaded is the current handler.\<close>

definition loaded_is_current :: "shell_manager \<Rightarrow> bool" where
  "loaded_is_current s =
     (\<forall>h\<in>set (handlers_values (m_handlers s)). prop_loaded (property s h) \<longrightarrow> m_currentHandler s = Some h)"

text \<open>The state \<open>updateShell\<close> leaves when it moves from the current handler to \<open>h\<close>:
  its last five statements.\<close>

definition switch_handler :: "qobject \<Rightarrow> shell_manager \<Rightarrow> shell_manager" where
  "switch_handler h s = (setProperty_loaded h True
                  ((case m_currentHandler s of Some old \<Rightarrow> setProperty_loaded old False s | None \<Rightarrow> s)
                     \<lparr>m_currentHandler := Some h\<rparr>))
                \<lparr>shellChanged := shellChanged s @ [prop_shell (property s h)]\<rparr>"

section \<open>Destruction of a chrome, as the specification words it\<close>

text \<open>
  The three destroy animations are the ones that end in the script action.
  \<open>handoff vs parent\<close> is the focus handoff the specification asks for: the view of
  the parent takes the focus when the parent still has a view, and nothing happens
  otherwise. \<open>destroy_animation_for\<close> is the destroy animation of a window type: top
  level, transient, popup, none for any other type.
\<close>

fun is_destroy_animation :: "animation \<Rightarrow> bool" where
  "is_destroy_animation topLevelDestroyAnimation = True"
| "is_destroy_animation transientDestroyAnimation = True"
| "is_destroy_animation popupDestroyAnimation = True"
| "is_destroy_animation topLevelMapAnimation = False"
| "is_destroy_animation transientMapAnimation = False"
| "is_destroy_animation popupMapAnimation = False"
| "is_destroy_animation focusAnimation = False"
| "is_destroy_animation minimizeAnimation = False"
| "is_destroy_animation unminimizeAnimation = False"

definition handoff :: "'v views \<Rightarrow> surface option \<Rightarrow> 'v list" where
  "handoff vs parent = (case lookup_view vs parent of Some v \<Rightarrow> [v] | None \<Rightarrow> [])"

definition destroy_animation_for :: "int \<Rightarrow> animation option" where
  "destroy_animation_for t =
     (if t = Qt_Window then Some topLevelDestroyAnimation
      else if t = Qt_SubWindow then Some transientDestroyAnimation
      else if t = Qt_Popup then Some popupDestroyAnimation
      else None)"

text \<open>
  The values the surface reported, in the order of the events, and the last-known value
  of each property: the last one reported, or the value the chrome held before when
  none was reported.
\<close>

fun reported_types :: "surface_event list \<Rightarrow> int list" where
  "reported_types [] = []"
| "reported_types (WindowTypeChanged t # evs) = t # reported_types evs"
| "reported_types (_ # evs) = reported_types evs"

fun reported_parents :: "surface_event list \<Rightarrow> surface option list" where
  "reported_parents [] = []"
| "reported_parents (ParentWlSurfaceChanged p # evs) = p # reported_parents evs"
| "reported_parents (_ # evs) = reported_parents evs"

definition last_known_type :: "surface_event list \<Rightarrow> int \<Rightarrow> int" where
  "last_known_type evs initial = (if reported_types evs = [] then initial else last (reported_types evs))"

definition last_known_parent :: "surface_event list \<Rightarrow> surface option \<Rightarrow> surface option" where
  "last_known_parent evs initial = (if reported_parents evs = [] then initial else last (reported_parents evs))"

section \<open>Example states\<close>

text \<open>
  \<open>no_properties\<close> is what the conversions give for an object on which none of the
  properties is set. \<open>ShellManager\<close> is the state the constructor leaves: no candidate,
  no current handler. The example of the specification has candidate \<open>a\<close> not willing
  with priority 1 and candidate \<open>b\<close> willing with priority 5.
\<close>

definition no_properties :: properties where
  "no_properties = \<lparr>prop_willing = False, prop_priority = 0, prop_loaded = False, prop_shell = [], prop_path = []\<rparr>"

definition ShellManager :: "(qobject \<Rightarrow> properties) \<Rightarrow> shell_manager" where
  "ShellManager objects =
     \<lparr>m_handlers = [], m_currentHandler = None, property = objects, connections = [], shellChanged = []\<rparr>"

definition example_objects :: "qobject \<Rightarrow> properties" where
  "example_objects =
     (\<lambda>_. no_properties)
       (1 := \<lparr>prop_willing = False, prop_priority = 1, prop_loaded = False, prop_shell = ''a'', prop_path = []\<rparr>,
        2 := \<lparr>prop_willing = True, prop_priority = 5, prop_loaded = False, prop_shell = ''b'', prop_path = []\<rparr>)"

definition example_manager :: shell_manager where
  "example_manager = registerHandler ''b'' 2 (registerHandler ''a'' 1 (ShellManager example_objects))"

definition tie_objects :: "qobject \<Rightarrow> properties" where
  "tie_objects =
     (\<lambda>_. no_properties)
       (1 := \<lparr>prop_willing = True, prop_priority = 0, prop_loaded = False, prop_shell = ''b'', prop_path = []\<rparr>,
        2 := \<lparr>prop_willing = True, prop_priority = 0, prop_loaded = False, prop_shell = ''a'', prop_path = []\<rparr>)"

definition tie_manager :: shell_manager where
  "tie_manager = registerHandler ''a'' 2 (registerHandler ''b'' 1 (ShellManager tie_objects))"

definition tie_dirs :: "shell_dir list" where
  "tie_dirs =
     [\<lparr>metadata_isValid = True, internalName = ''b'', created = Some 1, contents = ''/1/contents/''\<rparr>,
      \<lparr>metadata_isValid = True, internalName = ''a'', created = Some 2, contents = ''/2/contents/''\<rparr>]"

definition lone_manager :: shell_manager where
  "lone_manager = (registerHandler ''a'' 1 (ShellManager example_objects))\<lparr>m_currentHandler := Some 1\<rparr>"

definition invalid_dir :: shell_dir where
  "invalid_dir = \<lparr>metadata_isValid = False, internalName = ''broken'', created = None, contents = []\<rparr>"

text \<open>
  The second half of the example: \<open>b\<close> is current and loaded, then \<open>a\<close> turns willing
  with priority 0.
\<close>

definition flipped_manager :: shell_manager where
  "flipped_manager =
     \<lparr>m_handlers = [(''a'', 1), (''b'', 2)],
      m_currentHandler = Some 2,
      property = (\<lambda>_. no_properties)
        (1 := \<lparr>prop_willing = True, prop_priority = 0, prop_loaded = False, prop_shell = ''a'', prop_path = []\<rparr>,
         2 := \<lparr>prop_willing = True, prop_priority = 5, prop_loaded = True, prop_shell = ''b'', prop_path = []\<rparr>),
      connections = [1, 2],
      shellChanged = [''b'']\<rparr>"

text \<open>
  The desktop shell as its constructor leaves it, and two shells with four workspaces.
  \<open>silent\<close> is an observer that reads nothing; \<open>reading\<close> reads, at each signal,
  the content of the \<^verbatim>\<open>Workspace\<close> object at address 11.
\<close>

definition DesktopShell :: "(unit, unit) desktop_shell" where
  "DesktopShell =
     \<lparr>m_workspaces = [], m_windows = [], workspace_objects = Map.empty, unmapped_slots = [], notified = []\<rparr>"

definition silent :: "(unit, unit) observer" where
  "silent sig s = ()"

definition four_workspaces :: "(unit, unit) desktop_shell" where
  "four_workspaces =
     \<lparr>m_workspaces = [Some 10, Some 11, Some 12, Some 13],
      m_windows = [],
      workspace_objects = [10 \<mapsto> (), 11 \<mapsto> (), 12 \<mapsto> (), 13 \<mapsto> ()],
      unmapped_slots = [],
      notified = []\<rparr>"

definition reading :: "(string, string option) observer" where
  "reading sig s = workspace_objects s 11"

definition named_workspaces :: "(string, string option) desktop_shell" where
  "named_workspaces =
     \<lparr>m_workspaces = [Some 10, Some 11, Some 12, Some 13],
      m_windows = [5],
      workspace_objects = [10 \<mapsto> ''one'', 11 \<mapsto> ''two'', 12 \<mapsto> ''three'', 13 \<mapsto> ''four''],
      unmapped_slots = [5],
      notified = []\<rparr>"

text \<open>A chrome as the component declares it: \<open>windowType\<close> is \<^verbatim>\<open>Qt.Window\<close>, the parent
  surface is null, nothing has run.\<close>

definition Chrome :: "shell_surface \<Rightarrow> nat chrome" where
  "Chrome surface =
     \<lparr>shellSurface = surface, windowType = Qt_Window, parentWlSurface = None, bufferLocked = False,
      running = [], placements = [], takeFocus_calls = [], raised = 0, destroyed = False\<rparr>"

definition new_surface :: shell_surface where
  "new_surface = \<lparr>mapped = False, surface_windowType = Qt_Window, surface_parentWlSurface = None,
                   activated = False, minimized = False\<rparr>"

text \<open>
  A transient chrome whose parent surface 3 has no view left; and a surface that, after
  being mapped, changes its type and its parent twice each, the parent last to surface
  4, whose view is 40.
\<close>

definition orphan_chrome :: "nat chrome" where
  "orphan_chrome = (Chrome new_surface)\<lparr>windowType := Qt_SubWindow, parentWlSurface := Some 3\<rparr>"

definition late_events :: "surface_event list" where
  "late_events =
     [MappedChanged True, WindowTypeChanged Qt_Popup, ParentWlSurfaceChanged (Some 3),
      WindowTypeChanged Qt_SubWindow, ActivatedChanged True, ParentWlSurfaceChanged (Some 4)]"

definition no_views :: "nat views" where
  "no_views = Map.empty"

definition two_views :: "nat views" where
  "two_views = [3 \<mapsto> 30, 4 \<mapsto> 40]"

section \<open>Selection\<close>

subsection \<open>The first minimum\<close>

lemma compare_preferred: "compare s a b = preferred s a b"
  by (auto simp: compare_def preferred_def)

lemma preferred_trans: "preferred s a b \<Longrightarrow> preferred s b c \<Longrightarrow> preferred s a c"
  by (auto simp: preferred_def)

lemma preferred_neg_trans: "\<not> preferred s a b \<Longrightarrow> \<not> preferred s b c \<Longrightarrow> \<not> preferred s a c"
  by (auto simp: preferred_def)

lemma min_element_from_cases:
  assumes tr: "\<And>x y z. lt x y \<Longrightarrow> lt y z \<Longrightarrow> lt x z"
    and ntr: "\<And>x y z. \<not> lt x y \<Longrightarrow> \<not> lt y z \<Longrightarrow> \<not> lt x z"
  shows "(min_element_from lt a xs = a \<and> (\<forall>c\<in>set xs. \<not> lt c a)) \<or>
         (\<exists>pre post. xs = pre @ min_element_from lt a xs # post \<and>
            lt (min_element_from lt a xs) a \<and>
            (\<forall>c\<in>set pre. lt (min_element_from lt a xs) c) \<and>
            (\<forall>c\<in>set post. \<not> lt c (min_element_from lt a xs)))"
proof (induction xs arbitrary: a)
  case Nil
  show ?case by simp
next
  case (Cons x xs)
  show ?case
  proof (cases "lt x a")
    case True
    let ?m = "min_element_from lt x xs"
    have m: "min_element_from lt a (x # xs) = ?m" using True by simp
    from Cons.IH [of x] show ?thesis
    proof (elim disjE conjE exE)
      assume "?m = x" and "\<forall>c\<in>set xs. \<not> lt c x"
      then have "x # xs = [] @ ?m # xs \<and> lt ?m a \<and> (\<forall>c\<in>set []. lt ?m c) \<and> (\<forall>c\<in>set xs. \<not> lt c ?m)"
        using True by simp
      then show ?thesis unfolding m by blast
    next
      fix pre post
      assume xs: "xs = pre @ ?m # post" and lt: "lt ?m x"
        and pre: "\<forall>c\<in>set pre. lt ?m c" and post: "\<forall>c\<in>set post. \<not> lt c ?m"
      have "x # xs = (x # pre) @ ?m # post" using xs by simp
      moreover have "lt ?m a" using lt True tr by blast
      moreover have "\<forall>c\<in>set (x # pre). lt ?m c" using lt pre by simp
      ultimately show ?thesis unfolding m using post by blast
    qed
  next
    case False
    let ?m = "min_element_from lt a xs"
    have m: "min_element_from lt a (x # xs) = ?m" using False by simp
    from Cons.IH [of a] show ?thesis
    proof (elim disjE conjE exE)
      assume "?m = a" and "\<forall>c\<in>set xs. \<not> lt c a"
      then show ?thesis unfolding m using False by simp
    next
      fix pre post
      assume xs: "xs = pre @ ?m # post" and lt: "lt ?m a"
        and pre: "\<forall>c\<in>set pre. lt ?m c" and post: "\<forall>c\<in>set post. \<not> lt c ?m"
      have "x # xs = (x # pre) @ ?m # post" using xs by simp
      moreover have "lt ?m x" using lt False ntr by blast
      then have "\<forall>c\<in>set (x # pre). lt ?m c" using pre by simp
      ultimately show ?thesis unfolding m using lt post by blast
    qed
  qed
qed

lemma min_element_from_first_minimum:
  assumes tr: "\<And>x y z. lt x y \<Longrightarrow> lt y z \<Longrightarrow> lt x z"
    and ntr: "\<And>x y z. \<not> lt x y \<Longrightarrow> \<not> lt y z \<Longrightarrow> \<not> lt x z"
  shows "\<exists>pre post. a # xs = pre @ min_element_from lt a xs # post \<and>
            (\<forall>c\<in>set pre. lt (min_element_from lt a xs) c) \<and>
            (\<forall>c\<in>set post. \<not> lt c (min_element_from lt a xs))"
proof -
  let ?m = "min_element_from lt a xs"
  have "(?m = a \<and> (\<forall>c\<in>set xs. \<not> lt c a)) \<or>
         (\<exists>pre post. xs = pre @ ?m # post \<and> lt ?m a \<and>
            (\<forall>c\<in>set pre. lt ?m c) \<and> (\<forall>c\<in>set post. \<not> lt c ?m))"
    using tr ntr by (intro min_element_from_cases) blast+
  then show ?thesis
  proof (elim disjE conjE exE)
    assume "?m = a" and "\<forall>c\<in>set xs. \<not> lt c a"
    then have "a # xs = [] @ ?m # xs \<and> (\<forall>c\<in>set []. lt ?m c) \<and> (\<forall>c\<in>set xs. \<not> lt c ?m)"
      by simp
    then show ?thesis by blast
  next
    fix pre post
    assume xs: "xs = pre @ ?m # post" and lt: "lt ?m a"
      and pre: "\<forall>c\<in>set pre. lt ?m c" and post: "\<forall>c\<in>set post. \<not> lt c ?m"
    have "a # xs = (a # pre) @ ?m # post" using xs by simp
    moreover have "\<forall>c\<in>set (a # pre). lt ?m c" using lt pre by simp
    ultimately show ?thesis using post by blast
  qed
qed

lemma values_first_most_preferred:
  assumes "handlers_values (m_handlers s) = first # rest"
  shows "\<exists>pre post. handlers_values (m_handlers s) = pre @ min_element_from (compare s) first rest # post \<and>
            (\<forall>c\<in>set pre. preferred s (min_element_from (compare s) first rest) c) \<and>
            (\<forall>c\<in>set post. \<not> preferred s c (min_element_from (compare s) first rest))"
proof -
  have "\<exists>pre post. first # rest = pre @ min_element_from (compare s) first rest # post \<and>
            (\<forall>c\<in>set pre. compare s (min_element_from (compare s) first rest) c) \<and>
            (\<forall>c\<in>set post. \<not> compare s c (min_element_from (compare s) first rest))"
    by (rule min_element_from_first_minimum)
       (auto simp: compare_preferred intro: preferred_trans dest: preferred_neg_trans)
  then show ?thesis using assms by (simp add: compare_preferred)
qed

lemma updateShell_Cons:
  assumes "handlers_values (m_handlers s) = first # rest"
  shows "updateShell s =
     (let handler = min_element_from (compare s) first rest in
      if m_currentHandler s = Some handler then Inr s
      else Inr ((setProperty_loaded handler True
                  ((case m_currentHandler s of Some old \<Rightarrow> setProperty_loaded old False s | None \<Rightarrow> s)
                     \<lparr>m_currentHandler := Some handler\<rparr>))
                \<lparr>shellChanged := shellChanged s @ [prop_shell (property s handler)]\<rparr>))"
  using assms
  by (auto simp: updateShell_def Let_def setProperty_loaded_def split: option.splits)

lemma handlers_values_Nil: "handlers_values m = [] \<longleftrightarrow> m = []"
  by (simp add: handlers_values_def)

lemma preferred_asym: "preferred s a b \<Longrightarrow> \<not> preferred s b a"
  by (auto simp: preferred_def)

lemma preferred_irrefl: "\<not> preferred s a a"
  by (simp add: preferred_def)

lemma first_most_preferred_best:
  assumes "vs = pre @ h # post"
    and "\<forall>c\<in>set pre. preferred s h c" and "\<forall>c\<in>set post. \<not> preferred s c h"
  shows "\<forall>c\<in>set vs. \<not> preferred s c h"
proof
  fix c assume "c \<in> set vs"
  then consider "c \<in> set pre" | "c = h" | "c \<in> set post" using assms(1) by auto
  then show "\<not> preferred s c h"
  proof cases
    case 1 then show ?thesis using assms(2) preferred_asym by blast
  next
    case 2 then show ?thesis by (simp add: preferred_irrefl)
  next
    case 3 then show ?thesis using assms(3) by blast
  qed
qed

lemma switch_handler_current: "m_currentHandler (switch_handler h s) = Some h"
  by (simp add: switch_handler_def setProperty_loaded_def)

lemma switch_handler_handlers: "m_handlers (switch_handler h s) = m_handlers s"
  by (cases "m_currentHandler s") (simp_all add: switch_handler_def setProperty_loaded_def)

lemma switch_handler_shellChanged:
  "shellChanged (switch_handler h s) = shellChanged s @ [prop_shell (property (switch_handler h s) h)]"
  by (cases "m_currentHandler s") (simp_all add: switch_handler_def setProperty_loaded_def)

lemma switch_handler_loaded: "prop_loaded (property (switch_handler h s) h)"
  by (simp add: switch_handler_def setProperty_loaded_def)

lemma switch_handler_unloaded:
  "m_currentHandler s = Some old \<Longrightarrow> old \<noteq> h \<Longrightarrow> \<not> prop_loaded (property (switch_handler h s) old)"
  by (simp add: switch_handler_def setProperty_loaded_def)

lemma switch_handler_frame:
  "c \<noteq> h \<Longrightarrow> m_currentHandler s \<noteq> Some c \<Longrightarrow> property (switch_handler h s) c = property s c"
  by (cases "m_currentHandler s") (simp_all add: switch_handler_def setProperty_loaded_def)

lemma updateShell_switch:
  assumes "handlers_values (m_handlers s) = first # rest"
  shows "updateShell s =
     (if m_currentHandler s = Some (min_element_from (compare s) first rest) then Inr s
      else Inr (switch_handler (min_element_from (compare s) first rest) s))"
  by (simp add: updateShell_Cons [OF assms] Let_def switch_handler_def)

lemma switch_handler_only_loaded:
  assumes inv: "loaded_is_current s" and ne: "m_currentHandler s \<noteq> Some h"
    and c: "c \<in> set (handlers_values (m_handlers (switch_handler h s)))"
    and l: "prop_loaded (property (switch_handler h s) c)"
  shows "c = h"
proof (rule ccontr)
  assume neq: "c \<noteq> h"
  show False
  proof (cases "m_currentHandler s = Some c")
    case True
    then show False using switch_handler_unloaded [of s c h] neq l by blast
  next
    case False
    then have "property (switch_handler h s) c = property s c"
      using neq by (simp add: switch_handler_frame)
    then have "prop_loaded (property s c)" using l by simp
    moreover have "c \<in> set (handlers_values (m_handlers s))" using c by (simp add: switch_handler_handlers)
    ultimately have "m_currentHandler s = Some c"
      using inv unfolding loaded_is_current_def by blast
    with False show False by contradiction
  qed
qed

lemma flipped_pick: "updateShell flipped_manager = Inr (switch_handler 1 flipped_manager)"
  by (simp add: updateShell_def flipped_manager_def handlers_values_def compare_def willing_def priority_def
     switch_handler_def setProperty_loaded_def)

lemma not_preferred_willing: "\<not> preferred s c h \<Longrightarrow> willing s c \<Longrightarrow> willing s h"
  by (auto simp: preferred_def)

lemma not_preferred_priority:
  "\<not> preferred s c h \<Longrightarrow> willing s c = willing s h \<Longrightarrow> priority s h \<le> priority s c"
  by (auto simp: preferred_def)

text \<open>
  C1 (as amended). On a non-empty candidate container \<open>updateShell\<close> returns with a
  current handler \<open>h\<close> that is the first most preferred candidate in the order in
  which \<open>m_handlers.values()\<close> enumerates the candidates: \<open>h\<close> is preferred over
  every candidate enumerated before it, and no candidate enumerated after it is
  preferred over \<open>h\<close>. So a willing candidate wins over every unwilling one, a lower
  priority wins among equally willing ones, and what is still tied goes to the
  candidate the container enumerates first.
\<close>

theorem updateShell_selects_first_most_preferred:
  assumes "m_handlers s \<noteq> []"
  shows "\<exists>s' pre h post. updateShell s = Inr s' \<and> m_currentHandler s' = Some h \<and>
           handlers_values (m_handlers s) = pre @ h # post \<and>
           (\<forall>c\<in>set pre. preferred s h c) \<and> (\<forall>c\<in>set post. \<not> preferred s c h) \<and>
           (\<forall>c\<in>set (handlers_values (m_handlers s)). willing s c \<longrightarrow> willing s h) \<and>
           (\<forall>c\<in>set (handlers_values (m_handlers s)).
              willing s c = willing s h \<longrightarrow> priority s h \<le> priority s c)"
proof -
  from assms obtain first rest where v: "handlers_values (m_handlers s) = first # rest"
    by (cases "handlers_values (m_handlers s)") (auto simp: handlers_values_Nil)
  let ?h = "min_element_from (compare s) first rest"
  from values_first_most_preferred [OF v] obtain pre post
    where split: "handlers_values (m_handlers s) = pre @ ?h # post"
      and pre: "\<forall>c\<in>set pre. preferred s ?h c" and post: "\<forall>c\<in>set post. \<not> preferred s c ?h"
    by blast
  have best: "\<forall>c\<in>set (handlers_values (m_handlers s)). \<not> preferred s c ?h"
    using split pre post by (rule first_most_preferred_best)
  have w: "\<forall>c\<in>set (handlers_values (m_handlers s)). willing s c \<longrightarrow> willing s ?h"
    using best not_preferred_willing by blast
  have p: "\<forall>c\<in>set (handlers_values (m_handlers s)).
      willing s c = willing s ?h \<longrightarrow> priority s ?h \<le> priority s c"
    using best not_preferred_priority by blast
  have "\<exists>s'. updateShell s = Inr s' \<and> m_currentHandler s' = Some ?h"
    by (simp add: updateShell_Cons [OF v] Let_def setProperty_loaded_def)
  with split pre post w p show ?thesis by blast
qed

theorem updateShell_selects_first_most_preferred_witness:
  "m_handlers example_manager \<noteq> [] \<and>
   handlers_values (m_handlers example_manager) = [1, 2] \<and>
   \<not> willing example_manager 1 \<and> priority example_manager 1 = 1 \<and>
   willing example_manager 2 \<and> priority example_manager 2 = 5 \<and>
   (\<exists>s'. updateShell example_manager = Inr s' \<and> m_currentHandler s' = Some 2)"
proof -
  have h: "m_handlers example_manager \<noteq> []"
    by (simp add: example_manager_def registerHandler_def ShellManager_def)
  have v: "handlers_values (m_handlers example_manager) = [1, 2]"
    by (simp add: example_manager_def registerHandler_def ShellManager_def handlers_values_def)
  have e: "\<not> willing example_manager 1 \<and> priority example_manager 1 = 1 \<and>
      willing example_manager 2 \<and> priority example_manager 2 = 5"
    by (simp add: example_manager_def registerHandler_def ShellManager_def willing_def
        priority_def example_objects_def)
  from updateShell_selects_first_most_preferred [OF h] obtain s' h
    where u: "updateShell example_manager = Inr s'" and c: "m_currentHandler s' = Some h"
      and w: "\<forall>c\<in>set (handlers_values (m_handlers example_manager)).
                willing example_manager c \<longrightarrow> willing example_manager h"
      and m: "\<exists>pre post. handlers_values (m_handlers example_manager) = pre @ h # post"
    by blast
  from m v have "h \<in> set [1, 2]"
    by (metis in_set_conv_decomp)
  moreover from w v e have "willing example_manager h" by simp
  ultimately have "h = 2" using e by auto
  with h v e u c show ?thesis by simp
qed

text \<open>
  C1 as stated fails on the tie-break. Candidate \<open>b\<close> (object 1) is registered first,
  candidate \<open>a\<close> (object 2) second, both willing with priority 0. Neither is preferred
  over the other, the container enumerates \<open>a\<close> first, and \<open>updateShell\<close> makes the
  second-registered object 2 the current handler. The same happens from \<open>loadHandlers\<close>
  when the directory read first holds the shell named \<open>b\<close>. Registering the two in
  the other order leaves the same container, so no order of registration is kept that
  a tie could be broken by.
\<close>

theorem first_registered_tie_counterexample:
  "m_handlers (registerHandler ''b'' 1 (ShellManager tie_objects)) = [(''b'', 1)] \<and>
   m_handlers tie_manager = [(''a'', 2), (''b'', 1)] \<and>
   m_handlers (registerHandler ''b'' 1 (registerHandler ''a'' 2 (ShellManager tie_objects))) =
     m_handlers tie_manager \<and>
   \<not> preferred tie_manager 1 2 \<and> \<not> preferred tie_manager 2 1 \<and>
   map_sum id m_currentHandler (updateShell tie_manager) = Inr (Some 2) \<and>
   map_sum id m_currentHandler (loadHandlers tie_dirs (ShellManager tie_objects)) = Inr (Some 2)"
  by (simp add: tie_manager_def registerHandler_def ShellManager_def updateShell_def
      handlers_values_def compare_def preferred_def willing_def priority_def tie_objects_def
      setProperty_loaded_def setProperty_path_def loadHandlers_def tie_dirs_def
      handlers_contains_def)

section \<open>No candidate\<close>

text \<open>
  C3. Evaluating the selector with no registered candidate ends the process with the
  diagnostic: in \<open>updateShell\<close> itself, at load time when the walk over the shell
  directories registered nothing, and when the current handler is deregistered and
  was the last candidate.
\<close>

theorem no_handlers_is_fatal:
  "(m_handlers s = [] \<longrightarrow>
      updateShell s = Inl (Fatal ''No shell handlers installed, cannot continue!'')) \<and>
   (m_handlers (loadHandlers_dirs ds s) = [] \<longrightarrow>
      loadHandlers ds s = Inl (Fatal ''No shell handlers installed, cannot continue!'')) \<and>
   (m_currentHandler s = Some handler \<and>
    handlers_remove (handlers_key handler (m_handlers s)) (m_handlers s) = [] \<longrightarrow>
      deregisterHandler handler s = Inl (Fatal ''No shell handlers installed, cannot continue!''))"
  by (simp add: updateShell_def loadHandlers_def deregisterHandler_def handlers_values_def Let_def)

theorem no_handlers_is_fatal_witness:
  "m_handlers (ShellManager example_objects) = [] \<and>
   updateShell (ShellManager example_objects) = Inl (Fatal ''No shell handlers installed, cannot continue!'') \<and>
   m_handlers (loadHandlers_dirs [invalid_dir] (ShellManager example_objects)) = [] \<and>
   loadHandlers [invalid_dir] (ShellManager example_objects) = Inl (Fatal ''No shell handlers installed, cannot continue!'') \<and>
   m_currentHandler lone_manager = Some 1 \<and>
   handlers_remove (handlers_key 1 (m_handlers lone_manager)) (m_handlers lone_manager) = [] \<and>
   deregisterHandler 1 lone_manager = Inl (Fatal ''No shell handlers installed, cannot continue!'')"
proof -
  have a: "m_handlers (ShellManager example_objects) = []"
    by (simp add: ShellManager_def)
  have b: "m_handlers (loadHandlers_dirs [invalid_dir] (ShellManager example_objects)) = []"
    by (simp add: ShellManager_def invalid_dir_def)
  have c: "m_currentHandler lone_manager = Some 1 \<and>
      handlers_remove (handlers_key 1 (m_handlers lone_manager)) (m_handlers lone_manager) = []"
    by (simp add: lone_manager_def registerHandler_def ShellManager_def handlers_remove_def)
  from a b c
    no_handlers_is_fatal [of "ShellManager example_objects" "[invalid_dir]" 1]
    no_handlers_is_fatal [of lone_manager "[]" 1]
  show ?thesis by blast
qed

section \<open>Switching the current handler\<close>

text \<open>
  C4. A re-evaluation on a non-empty container returns with a most preferred candidate
  \<open>h\<close> as current handler. When \<open>h\<close> already was the current handler the state is
  unchanged, so nothing is emitted. Otherwise the prior handler, if there was one, ends
  with \<open>loaded\<close> false, \<open>h\<close> ends with \<open>loaded\<close> true, exactly one \<open>shellChanged\<close> is
  appended and it carries the \<open>shell\<close> property of \<open>h\<close>, the name the handler gives
  itself; the container and the properties of every other object are untouched. If
  before the call every loaded candidate was the current handler, the same holds after
  it, and \<open>h\<close> is then the only candidate that can be loaded.
\<close>

theorem updateShell_switches_handler:
  assumes "m_handlers s \<noteq> []"
  shows "\<exists>s' h. updateShell s = Inr s' \<and> m_currentHandler s' = Some h \<and>
           h \<in> set (handlers_values (m_handlers s)) \<and>
           (\<forall>c\<in>set (handlers_values (m_handlers s)). \<not> preferred s c h) \<and>
           (if m_currentHandler s = Some h then s' = s
            else (\<forall>old. m_currentHandler s = Some old \<longrightarrow> \<not> prop_loaded (property s' old)) \<and>
                 prop_loaded (property s' h) \<and>
                 shellChanged s' = shellChanged s @ [prop_shell (property s' h)] \<and>
                 m_handlers s' = m_handlers s \<and>
                 (\<forall>c. c \<noteq> h \<and> m_currentHandler s \<noteq> Some c \<longrightarrow> property s' c = property s c)) \<and>
           (loaded_is_current s \<longrightarrow>
              loaded_is_current s' \<and>
              (\<forall>c\<in>set (handlers_values (m_handlers s')). prop_loaded (property s' c) \<longrightarrow> c = h))"
proof -
  from assms obtain first rest where v: "handlers_values (m_handlers s) = first # rest"
    by (cases "handlers_values (m_handlers s)") (auto simp: handlers_values_Nil)
  define h where "h = min_element_from (compare s) first rest"
  from values_first_most_preferred [OF v] obtain pre post
    where split: "handlers_values (m_handlers s) = pre @ h # post"
      and pre: "\<forall>c\<in>set pre. preferred s h c" and post: "\<forall>c\<in>set post. \<not> preferred s c h"
    unfolding h_def by blast
  have mem: "h \<in> set (handlers_values (m_handlers s))"
    using split by simp
  have best: "\<forall>c\<in>set (handlers_values (m_handlers s)). \<not> preferred s c h"
    using split pre post by (rule first_most_preferred_best)
  have u: "updateShell s = (if m_currentHandler s = Some h then Inr s else Inr (switch_handler h s))"
    unfolding h_def by (rule updateShell_switch [OF v])
  show ?thesis
  proof (cases "m_currentHandler s = Some h")
    case True
    have only: "loaded_is_current s \<longrightarrow>
        (\<forall>c\<in>set (handlers_values (m_handlers s)). prop_loaded (property s c) \<longrightarrow> c = h)"
      using True unfolding loaded_is_current_def by auto
    have "updateShell s = Inr s \<and> m_currentHandler s = Some h \<and>
           h \<in> set (handlers_values (m_handlers s)) \<and>
           (\<forall>c\<in>set (handlers_values (m_handlers s)). \<not> preferred s c h) \<and>
           (if m_currentHandler s = Some h then s = s
            else (\<forall>old. m_currentHandler s = Some old \<longrightarrow> \<not> prop_loaded (property s old)) \<and>
                 prop_loaded (property s h) \<and>
                 shellChanged s = shellChanged s @ [prop_shell (property s h)] \<and>
                 m_handlers s = m_handlers s \<and>
                 (\<forall>c. c \<noteq> h \<and> m_currentHandler s \<noteq> Some c \<longrightarrow> property s c = property s c)) \<and>
           (loaded_is_current s \<longrightarrow>
              loaded_is_current s \<and>
              (\<forall>c\<in>set (handlers_values (m_handlers s)). prop_loaded (property s c) \<longrightarrow> c = h))"
      using True u mem best only by simp
    then show ?thesis by blast
  next
    case False
    let ?s' = "switch_handler h s"
    have old: "\<forall>old. m_currentHandler s = Some old \<longrightarrow> \<not> prop_loaded (property ?s' old)"
      using False switch_handler_unloaded [of s _ h] by blast
    have frame: "\<forall>c. c \<noteq> h \<and> m_currentHandler s \<noteq> Some c \<longrightarrow> property ?s' c = property s c"
      by (simp add: switch_handler_frame)
    have only: "loaded_is_current s \<longrightarrow>
        (\<forall>c\<in>set (handlers_values (m_handlers ?s')). prop_loaded (property ?s' c) \<longrightarrow> c = h)"
      using False switch_handler_only_loaded [of s h] by blast
    then have inv': "loaded_is_current s \<longrightarrow> loaded_is_current ?s'"
      unfolding loaded_is_current_def [of ?s'] by (auto simp: switch_handler_current)
    have "updateShell s = Inr ?s' \<and> m_currentHandler ?s' = Some h \<and>
           h \<in> set (handlers_values (m_handlers s)) \<and>
           (\<forall>c\<in>set (handlers_values (m_handlers s)). \<not> preferred s c h) \<and>
           (if m_currentHandler s = Some h then ?s' = s
            else (\<forall>old. m_currentHandler s = Some old \<longrightarrow> \<not> prop_loaded (property ?s' old)) \<and>
                 prop_loaded (property ?s' h) \<and>
                 shellChanged ?s' = shellChanged s @ [prop_shell (property ?s' h)] \<and>
                 m_handlers ?s' = m_handlers s \<and>
                 (\<forall>c. c \<noteq> h \<and> m_currentHandler s \<noteq> Some c \<longrightarrow> property ?s' c = property s c)) \<and>
           (loaded_is_current s \<longrightarrow>
              loaded_is_current ?s' \<and>
              (\<forall>c\<in>set (handlers_values (m_handlers ?s')). prop_loaded (property ?s' c) \<longrightarrow> c = h))"
      using False u mem best old frame only inv' switch_handler_current [of h s] switch_handler_handlers [of h s] switch_handler_shellChanged [of h s] switch_handler_loaded [of h s]
      by (intro conjI) simp_all
    then show ?thesis by blast
  qed
qed

theorem updateShell_switches_handler_witness:
  "m_handlers flipped_manager \<noteq> [] \<and> loaded_is_current flipped_manager \<and>
   m_currentHandler flipped_manager = Some 2 \<and>
   (\<exists>s'. updateShell flipped_manager = Inr s' \<and> m_currentHandler s' = Some 1 \<and>
      \<not> prop_loaded (property s' 2) \<and> prop_loaded (property s' 1) \<and>
      shellChanged s' = shellChanged flipped_manager @ [''a''] \<and>
      loaded_is_current s')"
proof -
  have a: "m_handlers flipped_manager \<noteq> []"
    by (simp add: flipped_manager_def)
  have b: "loaded_is_current flipped_manager"
    by (simp add: loaded_is_current_def flipped_manager_def handlers_values_def)
  have c: "m_currentHandler flipped_manager = Some 2"
    by (simp add: flipped_manager_def)
  have d: "m_currentHandler (switch_handler 1 flipped_manager) = Some 1"
    by (rule switch_handler_current)
  have e: "prop_shell (property (switch_handler 1 flipped_manager) 1) = ''a''"
    by (simp add: switch_handler_def flipped_manager_def setProperty_loaded_def)
  from updateShell_switches_handler [OF a] obtain s' h
    where u: "updateShell flipped_manager = Inr s'" and h: "m_currentHandler s' = Some h"
      and sw: "if m_currentHandler flipped_manager = Some h then s' = flipped_manager
            else (\<forall>old. m_currentHandler flipped_manager = Some old \<longrightarrow> \<not> prop_loaded (property s' old)) \<and>
                 prop_loaded (property s' h) \<and>
                 shellChanged s' = shellChanged flipped_manager @ [prop_shell (property s' h)] \<and>
                 m_handlers s' = m_handlers flipped_manager \<and>
                 (\<forall>c. c \<noteq> h \<and> m_currentHandler flipped_manager \<noteq> Some c \<longrightarrow> property s' c = property flipped_manager c)"
      and inv: "loaded_is_current flipped_manager \<longrightarrow> loaded_is_current s' \<and>
              (\<forall>c\<in>set (handlers_values (m_handlers s')). prop_loaded (property s' c) \<longrightarrow> c = h)"
    by blast
  from u flipped_pick have s': "s' = switch_handler 1 flipped_manager" by simp
  with h d have h1: "h = 1" by simp
  from sw c h1 have "\<not> prop_loaded (property s' 2) \<and> prop_loaded (property s' 1) \<and>
      shellChanged s' = shellChanged flipped_manager @ [prop_shell (property s' 1)]" by simp
  with e s' have "\<not> prop_loaded (property s' 2) \<and> prop_loaded (property s' 1) \<and>
      shellChanged s' = shellChanged flipped_manager @ [''a'']" by simp
  with a b c u h h1 inv show ?thesis by blast
qed

subsection \<open>The same invariant along the other slots\<close>

text \<open>
  The flag \<open>loaded\<close> is written by \<open>updateShell\<close> only. Registering a handler that is
  not loaded keeps every loaded candidate the current handler, and so does
  deregistering any handler as long as no object is registered under two names; the
  objects \<open>loadHandlers\<close> registers are freshly created ones.
\<close>

lemma updateShell_loaded_is_current:
  assumes inv: "loaded_is_current s" and u: "updateShell s = Inr s'"
  shows "loaded_is_current s'"
proof (cases "handlers_values (m_handlers s)")
  case Nil
  then show ?thesis using u by (simp add: updateShell_def)
next
  case (Cons first rest)
  let ?h = "min_element_from (compare s) first rest"
  show ?thesis
  proof (cases "m_currentHandler s = Some ?h")
    case True
    then have "s' = s" using u by (simp add: updateShell_switch [OF Cons])
    then show ?thesis using inv by simp
  next
    case False
    then have s': "s' = switch_handler ?h s" using u by (simp add: updateShell_switch [OF Cons])
    have "\<forall>c\<in>set (handlers_values (m_handlers s')). prop_loaded (property s' c) \<longrightarrow> c = ?h"
      unfolding s' using switch_handler_only_loaded [OF inv False] by blast
    then show ?thesis
      unfolding loaded_is_current_def by (auto simp: s' switch_handler_current)
  qed
qed

lemma handlers_insert_entry:
  "(k, v) \<in> set (handlers_insert name handler m) \<Longrightarrow> v = handler \<or> (k, v) \<in> set m"
  by (induction m) (auto split: if_splits)

lemma handlers_insert_values:
  "set (handlers_values (handlers_insert name handler m)) \<subseteq> insert handler (set (handlers_values m))"
proof
  fix v assume "v \<in> set (handlers_values (handlers_insert name handler m))"
  then obtain k where "(k, v) \<in> set (handlers_insert name handler m)"
    by (auto simp: handlers_values_def)
  then have "v = handler \<or> (k, v) \<in> set m" by (rule handlers_insert_entry)
  then show "v \<in> insert handler (set (handlers_values m))"
    by (force simp: handlers_values_def)
qed

lemma registerHandler_loaded_is_current:
  assumes "loaded_is_current s" and "\<not> prop_loaded (property s handler)"
  shows "loaded_is_current (registerHandler name handler s)"
proof -
  have "\<forall>c\<in>set (handlers_values (handlers_insert name handler (m_handlers s))).
          prop_loaded (property s c) \<longrightarrow> m_currentHandler s = Some c"
    using assms handlers_insert_values [of name handler "m_handlers s"]
    unfolding loaded_is_current_def by blast
  then show ?thesis by (simp add: loaded_is_current_def registerHandler_def)
qed

lemma handlers_remove_values:
  "set (handlers_values (handlers_remove name m)) \<subseteq> set (handlers_values m)"
  by (auto simp: handlers_values_def handlers_remove_def)

lemma handlers_remove_key_gone:
  assumes "handler \<in> set (handlers_values m)" and "distinct (handlers_values m)"
  shows "handler \<notin> set (handlers_values (handlers_remove (handlers_key handler m) m))"
  using assms
proof (induction m)
  case Nil
  then show ?case by (simp add: handlers_values_def)
next
  case (Cons e m)
  obtain k v where e: "e = (k, v)" by (cases e)
  show ?case
  proof (cases "v = handler")
    case True
    then have "handler \<notin> set (handlers_values m)"
      using Cons.prems(2) e by (simp add: handlers_values_def)
    then have "handler \<notin> set (handlers_values (handlers_remove k m))"
      using handlers_remove_values by blast
    then show ?thesis using True e by (simp add: handlers_values_def handlers_remove_def)
  next
    case False
    then have "handler \<in> set (handlers_values m)" and "distinct (handlers_values m)"
      using Cons.prems e by (simp_all add: handlers_values_def)
    from Cons.IH [OF this] show ?thesis
      using False e by (simp add: handlers_values_def handlers_remove_def)
  qed
qed

lemma deregisterHandler_loaded_is_current:
  assumes inv: "loaded_is_current s" and d: "distinct (handlers_values (m_handlers s))"
    and r: "deregisterHandler handler s = Inr s'"
  shows "loaded_is_current s'"
proof -
  let ?m = "handlers_remove (handlers_key handler (m_handlers s)) (m_handlers s)"
  let ?s2 = "s\<lparr>m_handlers := ?m, connections := filter (\<lambda>c. c \<noteq> handler) (connections s)\<rparr>"
  have sub: "set (handlers_values ?m) \<subseteq> set (handlers_values (m_handlers s))"
    by (rule handlers_remove_values)
  show ?thesis
  proof (cases "m_currentHandler s = Some handler")
    case False
    then have "s' = ?s2" using r by (simp add: deregisterHandler_def Let_def)
    then show ?thesis using inv sub unfolding loaded_is_current_def by auto
  next
    case True
    then have u: "updateShell (?s2\<lparr>m_currentHandler := None\<rparr>) = Inr s'"
      using r by (simp add: deregisterHandler_def Let_def)
    have "loaded_is_current (?s2\<lparr>m_currentHandler := None\<rparr>)"
      unfolding loaded_is_current_def
    proof (intro ballI impI)
      fix c
      assume c: "c \<in> set (handlers_values (m_handlers (?s2\<lparr>m_currentHandler := None\<rparr>)))"
        and l: "prop_loaded (property (?s2\<lparr>m_currentHandler := None\<rparr>) c)"
      from c sub have mem: "c \<in> set (handlers_values (m_handlers s))" by auto
      with l inv True have "c = handler" unfolding loaded_is_current_def by auto
      with mem d handlers_remove_key_gone [of handler "m_handlers s"] c
      show "m_currentHandler (?s2\<lparr>m_currentHandler := None\<rparr>) = Some c" by simp
    qed
    then show ?thesis using u by (rule updateShell_loaded_is_current)
  qed
qed

section \<open>Deregistering a candidate that is not current\<close>

subsection \<open>The entry taken out\<close>

lemma handlers_key_split:
  assumes "handler \<in> set (handlers_values m)"
  shows "\<exists>pre post. m = pre @ (handlers_key handler m, handler) # post \<and> (\<forall>e\<in>set pre. snd e \<noteq> handler)"
  using assms
proof (induction m)
  case Nil
  then show ?case by (simp add: handlers_values_def)
next
  case (Cons e m)
  obtain k v where e: "e = (k, v)" by (cases e)
  show ?case
  proof (cases "v = handler")
    case True
    then have "e # m = [] @ (handlers_key handler (e # m), handler) # m" using e by simp
    then show ?thesis by (metis empty_iff list.set(1))
  next
    case False
    then have "handler \<in> set (handlers_values m)"
      using Cons.prems e by (simp add: handlers_values_def)
    from Cons.IH [OF this] obtain pre post
      where m: "m = pre @ (handlers_key handler m, handler) # post" and pre: "\<forall>e\<in>set pre. snd e \<noteq> handler"
      by blast
    have k: "handlers_key handler (e # m) = handlers_key handler m" using False e by simp
    have "e # m = (e # pre) @ (handlers_key handler (e # m), handler) # post"
      using m k by simp
    moreover have "\<forall>x\<in>set (e # pre). snd x \<noteq> handler" using pre False e by simp
    ultimately show ?thesis by blast
  qed
qed

lemma handlers_remove_entry:
  assumes "distinct (map fst (pre @ (name, handler) # post))"
  shows "handlers_remove name (pre @ (name, handler) # post) = pre @ post"
proof -
  have "\<forall>e\<in>set pre. fst e \<noteq> name" and "\<forall>e\<in>set post. fst e \<noteq> name"
    using assms by auto
  then show ?thesis by (simp add: handlers_remove_def)
qed

text \<open>
  C9. Deregistering a registered candidate that is not the current handler returns
  and takes exactly its entry out of the container, the other entries keeping their
  order. The current handler, the properties of every object (the loaded flags among
  them), the current shell name and the list of emitted \<open>shellChanged\<close> signals are
  unchanged. The keys of the container are distinct, as in every map.
\<close>

theorem deregisterHandler_not_current:
  assumes "handler \<in> set (handlers_values (m_handlers s))"
    and "m_currentHandler s \<noteq> Some handler"
    and "distinct (map fst (m_handlers s))"
  shows "\<exists>s' pre name post. deregisterHandler handler s = Inr s' \<and>
           m_handlers s = pre @ (name, handler) # post \<and> m_handlers s' = pre @ post \<and>
           m_currentHandler s' = m_currentHandler s \<and> property s' = property s \<and>
           shell s' = shell s \<and> shellChanged s' = shellChanged s"
proof -
  let ?name = "handlers_key handler (m_handlers s)"
  from handlers_key_split [OF assms(1)] obtain pre post
    where m: "m_handlers s = pre @ (?name, handler) # post" by blast
  have r: "handlers_remove ?name (m_handlers s) = pre @ post"
    using assms(3) handlers_remove_entry [of pre ?name handler post] m by simp
  let ?s' = "s\<lparr>m_handlers := pre @ post, connections := filter (\<lambda>c. c \<noteq> handler) (connections s)\<rparr>"
  have "deregisterHandler handler s = Inr ?s'"
    using assms(2) r by (simp add: deregisterHandler_def Let_def)
  moreover have "shell ?s' = shell s" by (cases "m_currentHandler s") (simp_all add: shell_def)
  ultimately show ?thesis using m
    by (intro exI [of _ ?s'] exI [of _ pre] exI [of _ ?name] exI [of _ post]) simp
qed

theorem deregisterHandler_not_current_witness:
  "1 \<in> set (handlers_values (m_handlers flipped_manager)) \<and>
   m_currentHandler flipped_manager \<noteq> Some 1 \<and>
   distinct (map fst (m_handlers flipped_manager)) \<and>
   (\<exists>s' pre name post. deregisterHandler 1 flipped_manager = Inr s' \<and>
      m_handlers flipped_manager = pre @ (name, 1) # post \<and> m_handlers s' = pre @ post \<and>
      m_currentHandler s' = m_currentHandler flipped_manager \<and> property s' = property flipped_manager \<and>
      shell s' = shell flipped_manager \<and> shellChanged s' = shellChanged flipped_manager) \<and>
   map_sum id m_handlers (deregisterHandler 1 flipped_manager) = Inr [(''b'', 2)]"
proof -
  have a: "1 \<in> set (handlers_values (m_handlers flipped_manager))"
    by (simp add: flipped_manager_def handlers_values_def)
  have b: "m_currentHandler flipped_manager \<noteq> Some 1"
    by (simp add: flipped_manager_def)
  have c: "distinct (map fst (m_handlers flipped_manager))"
    by (simp add: flipped_manager_def)
  have d: "map_sum id m_handlers (deregisterHandler 1 flipped_manager) = Inr [(''b'', 2)]"
    by (simp add: flipped_manager_def deregisterHandler_def handlers_remove_def)
  from a b c d deregisterHandler_not_current [OF a b c] show ?thesis by blast
qed

section \<open>Removing a workspace\<close>

lemma takeAt_valid:
  assumes "0 \<le> i" and "i < int (length xs)"
  shows "takeAt i xs = Inr (xs ! nat i, take (nat i) xs @ drop (Suc (nat i)) xs)"
  using assms by (simp add: takeAt_def)

text \<open>
  C2 (as amended). \<open>removeWorkspace\<close> has no out-of-range result: it returns nothing to
  its caller and hands the index unchecked to \<^verbatim>\<open>QList::takeAt\<close>, which requires a valid
  one. At every valid index it returns, the workspace at that index has left the list,
  the later ones have moved down by one, and the window list and the connections of the
  windows are unchanged.
\<close>

theorem removeWorkspace_valid_index:
  assumes "0 \<le> num" and "num < int (length (m_workspaces s))"
  shows "\<exists>s'. removeWorkspace obs num s = Inr s' \<and>
           m_workspaces s' = take (nat num) (m_workspaces s) @ drop (Suc (nat num)) (m_workspaces s) \<and>
           Suc (length (m_workspaces s')) = length (m_workspaces s) \<and>
           m_windows s' = m_windows s \<and> unmapped_slots s' = unmapped_slots s"
proof (cases "m_workspaces s ! nat num")
  case None
  then show ?thesis
    using assms by (simp add: removeWorkspace_def takeAt_valid Let_def)
next
  case (Some p)
  then show ?thesis
    using assms by (simp add: removeWorkspace_def takeAt_valid Let_def emit_def delete_workspace_def)
qed

theorem removeWorkspace_valid_index_witness:
  "(0::int) \<le> 1 \<and> 1 < int (length (m_workspaces named_workspaces)) \<and>
   (\<exists>s'. removeWorkspace reading 1 named_workspaces = Inr s' \<and>
      m_workspaces s' = [Some 10, Some 12, Some 13] \<and> m_windows s' = [5])"
proof -
  have a: "(0::int) \<le> 1" by simp
  have b: "1 < int (length (m_workspaces named_workspaces))"
    by (simp add: named_workspaces_def)
  from removeWorkspace_valid_index [OF a b, of reading] obtain s'
    where r: "removeWorkspace reading 1 named_workspaces = Inr s'"
      and w: "m_workspaces s' = take (nat 1) (m_workspaces named_workspaces) @ drop (Suc (nat 1)) (m_workspaces named_workspaces)"
      and m: "m_windows s' = m_windows named_workspaces"
    by blast
  have "m_workspaces s' = [Some 10, Some 12, Some 13]"
    using w by (simp add: named_workspaces_def)
  moreover have "m_windows s' = [5]" using m by (simp add: named_workspaces_def)
  ultimately show ?thesis using a b r by blast
qed

text \<open>
  C2 as stated fails. With four workspaces the indices 4 and -1 are not valid; the call
  reports nothing to its caller, it ends in the assertion of \<^verbatim>\<open>QList::takeAt\<close>.
\<close>

theorem removeWorkspace_out_of_range_counterexample:
  "removeWorkspace silent 4 four_workspaces = Inl (AssertFailure ''QList<T>::take: index out of range'') \<and>
   removeWorkspace silent (- 1) four_workspaces = Inl (AssertFailure ''QList<T>::take: index out of range'') \<and>
   length (m_workspaces four_workspaces) = 4"
  by (simp add: removeWorkspace_def takeAt_def four_workspaces_def)

text \<open>
  C7. At a valid index whose slot holds a workspace object \<open>p\<close>, \<open>removeWorkspace\<close>
  returns having emitted exactly one \<open>workspaceRemoved\<close> carrying that index. The
  observer ran in the state \<open>seen\<close>, which is the state before the call with the
  workspace taken out of the list and nothing else changed: the object \<open>p\<close> is still
  there with its content. Only in the state returned is \<open>p\<close> released.
\<close>

theorem removeWorkspace_notifies_before_delete:
  assumes "0 \<le> num" and "num < int (length (m_workspaces s))"
    and "m_workspaces s ! nat num = Some p"
  shows "\<exists>s' seen. removeWorkspace obs num s = Inr s' \<and>
           notified s' = notified s @ [(workspaceRemoved num, obs (workspaceRemoved num) seen)] \<and>
           seen = s\<lparr>m_workspaces := m_workspaces s'\<rparr> \<and>
           workspace_objects seen p = workspace_objects s p \<and>
           workspace_objects s' = (workspace_objects s)(p := None)"
proof -
  let ?rest = "take (nat num) (m_workspaces s) @ drop (Suc (nat num)) (m_workspaces s)"
  let ?seen = "s\<lparr>m_workspaces := ?rest\<rparr>"
  have "removeWorkspace obs num s = Inr (delete_workspace p (emit obs (workspaceRemoved num) ?seen))"
    using assms by (simp add: removeWorkspace_def takeAt_valid Let_def)
  then show ?thesis
    by (intro exI [of _ "delete_workspace p (emit obs (workspaceRemoved num) ?seen)"] exI [of _ ?seen])
       (simp add: emit_def delete_workspace_def)
qed

theorem removeWorkspace_notifies_before_delete_witness:
  "(0::int) \<le> 1 \<and> 1 < int (length (m_workspaces named_workspaces)) \<and>
   m_workspaces named_workspaces ! nat 1 = Some 11 \<and>
   (\<exists>s'. removeWorkspace reading 1 named_workspaces = Inr s' \<and>
      notified s' = [(workspaceRemoved 1, Some ''two'')] \<and>
      workspace_objects s' 11 = None \<and>
      m_workspaces s' = [Some 10, Some 12, Some 13])"
proof -
  have a: "(0::int) \<le> 1" by simp
  have b: "1 < int (length (m_workspaces named_workspaces))"
    by (simp add: named_workspaces_def)
  have c: "m_workspaces named_workspaces ! nat 1 = Some 11"
    by (simp add: named_workspaces_def)
  from removeWorkspace_notifies_before_delete [OF a b c, of reading] obtain s' seen
    where r: "removeWorkspace reading 1 named_workspaces = Inr s'"
      and n: "notified s' = notified named_workspaces @ [(workspaceRemoved 1, reading (workspaceRemoved 1) seen)]"
      and seen: "workspace_objects seen 11 = workspace_objects named_workspaces 11"
      and gone: "workspace_objects s' = (workspace_objects named_workspaces)(11 := None)"
    by blast
  have "reading (workspaceRemoved 1) seen = Some ''two''"
    using seen by (simp add: reading_def named_workspaces_def)
  with n have "notified s' = [(workspaceRemoved 1, Some ''two'')]"
    by (simp add: named_workspaces_def)
  moreover have "workspace_objects s' 11 = None" using gone by simp
  moreover have "m_workspaces s' = [Some 10, Some 12, Some 13]"
    using r by (auto simp: removeWorkspace_def takeAt_def named_workspaces_def emit_def delete_workspace_def)
  ultimately show ?thesis using a b c r by blast
qed

section \<open>Appending a window\<close>

lemma appendWindow_windows: "m_windows (appendWindow obs w s) = m_windows s @ [w]"
  by (simp add: appendWindow_def emit_def Let_def)

lemma appendWindow_count: "windowsChanged_count (appendWindow obs w s) = Suc (windowsChanged_count s)"
  by (simp add: appendWindow_def emit_def windowsChanged_count_def Let_def)

lemma appendWindow_slots: "unmapped_slots (appendWindow obs w s) = unmapped_slots s @ [w]"
  by (simp add: appendWindow_def emit_def Let_def)

lemma onMappedChanged_placements:
  "mapped (shellSurface c) \<Longrightarrow> length (placements (onMappedChanged vs c)) = Suc (length (placements c))"
  by (simp add: onMappedChanged_def setPosition_def start_def Let_def split: option.splits)

lemma deliver_mapped_placements:
  "length (placements (deliver vs (MappedChanged True) c)) = Suc (length (placements c))"
  by (simp add: onMappedChanged_placements)

text \<open>
  C8 (as amended). No delivery is ignored. Every call of \<open>appendWindow\<close>, also for a
  window that is in the list already, appends the window once more, connects its
  \<^verbatim>\<open>unmapped\<close> signal once more and emits exactly one \<open>windowsChanged\<close>: \<open>n\<close> deliveries
  of the same window leave \<open>n\<close> entries and \<open>n\<close> notifications. In the chrome every run
  of the \<^verbatim>\<open>onMappedChanged\<close> handler with \<open>mapped\<close> true positions the chrome again.
\<close>

theorem appendWindow_every_delivery:
  "m_windows (((appendWindow obs w) ^^ n) s) = m_windows s @ replicate n w \<and>
   unmapped_slots (((appendWindow obs w) ^^ n) s) = unmapped_slots s @ replicate n w \<and>
   windowsChanged_count (((appendWindow obs w) ^^ n) s) = windowsChanged_count s + n \<and>
   length (placements (((deliver vs (MappedChanged True)) ^^ n) c)) = length (placements c) + n"
proof (induction n)
  case 0
  show ?case by simp
next
  case (Suc n)
  then show ?case
    by (simp add: appendWindow_windows appendWindow_slots appendWindow_count deliver_mapped_placements
        replicate_append_same del: deliver.simps)
qed

theorem appendWindow_every_delivery_witness:
  "m_windows (((appendWindow silent 7) ^^ 2) DesktopShell) = [7, 7] \<and>
   windowsChanged_count (((appendWindow silent 7) ^^ 2) DesktopShell) = 2 \<and>
   length (placements (((deliver Map.empty (MappedChanged True)) ^^ 2) (Chrome new_surface))) = 2"
proof -
  have "m_windows DesktopShell = [] \<and> windowsChanged_count DesktopShell = 0 \<and>
        placements (Chrome new_surface) = []"
    by (simp add: DesktopShell_def windowsChanged_count_def Chrome_def)
  moreover have "replicate 2 (7::nat) = [7, 7]" by (simp add: numeral_2_eq_2)
  ultimately show ?thesis
    using appendWindow_every_delivery
            [where obs = silent and w = 7 and n = 2 and s = DesktopShell and vs = Map.empty
               and c = "Chrome new_surface"]
    by simp
qed

text \<open>
  C8 as stated fails. The same window delivered twice to the shell as constructed is
  twice in the window list, and two \<open>windowsChanged\<close> notifications were emitted where
  one delivery emits one.
\<close>

theorem appendWindow_twice_counterexample:
  "m_windows (appendWindow silent 7 (appendWindow silent 7 DesktopShell)) = [7, 7] \<and>
   windowsChanged_count (appendWindow silent 7 (appendWindow silent 7 DesktopShell)) = 2 \<and>
   windowsChanged_count (appendWindow silent 7 DesktopShell) = 1"
  by (simp add: appendWindow_def emit_def DesktopShell_def windowsChanged_count_def Let_def)

section \<open>Destroying a chrome\<close>

subsection \<open>Finishing the animations\<close>

lemma giveFocusToParent_calls:
  "takeFocus_calls (giveFocusToParent vs c) = takeFocus_calls c @ handoff vs (parentWlSurface c)"
  by (simp add: giveFocusToParent_def handoff_def split: option.splits)

lemma giveFocusToParent_parent [simp]: "parentWlSurface (giveFocusToParent vs c) = parentWlSurface c"
  by (simp add: giveFocusToParent_def split: option.splits)

lemma giveFocusToParent_destroyed [simp]: "destroyed (giveFocusToParent vs c) = destroyed c"
  by (simp add: giveFocusToParent_def split: option.splits)

lemma giveFocusToParent_running [simp]: "running (giveFocusToParent vs c) = running c"
  by (simp add: giveFocusToParent_def split: option.splits)

lemma animation_finished_parent [simp]:
  "parentWlSurface (animation_finished vs a c) = parentWlSurface c"
  by (cases a) (simp_all add: animation_finished_def scriptAction_def chrome_destroy_def)

lemma animation_finished_calls:
  "takeFocus_calls (animation_finished vs a c) =
     takeFocus_calls c @ (if is_destroy_animation a then handoff vs (parentWlSurface c) else [])"
  by (cases a) (simp_all add: animation_finished_def scriptAction_def chrome_destroy_def giveFocusToParent_calls)

lemma animation_finished_destroyed:
  "destroyed (animation_finished vs a c) = (destroyed c \<or> is_destroy_animation a)"
  by (cases a) (simp_all add: animation_finished_def scriptAction_def chrome_destroy_def)

lemma fold_finished_parent [simp]:
  "parentWlSurface (fold (animation_finished vs) as c) = parentWlSurface c"
  by (induction as arbitrary: c) simp_all

lemma concat_replicate_commute: "concat (replicate n h) @ h = h @ concat (replicate n h)"
  by (induction n) simp_all

lemma fold_finished_calls:
  "takeFocus_calls (fold (animation_finished vs) as c) =
     takeFocus_calls c @
     concat (replicate (length (filter is_destroy_animation as)) (handoff vs (parentWlSurface c)))"
  by (induction as arbitrary: c) (simp_all add: animation_finished_calls)

lemma fold_finished_destroyed:
  "destroyed (fold (animation_finished vs) as c) = (destroyed c \<or> (\<exists>a\<in>set as. is_destroy_animation a))"
  by (induction as arbitrary: c) (auto simp: animation_finished_destroyed)

lemma onSurfaceDestroyed_parent [simp]:
  "parentWlSurface (onSurfaceDestroyed vs c) = parentWlSurface c"
  by (simp add: onSurfaceDestroyed_def Let_def start_def chrome_destroy_def)

lemma destroy_animation_for_is_destroy:
  "destroy_animation_for t = Some a \<Longrightarrow> is_destroy_animation a"
  by (auto simp: destroy_animation_for_def split: if_splits)

lemma onSurfaceDestroyed_animated:
  assumes "destroy_animation_for (windowType c) = Some a"
  shows "onSurfaceDestroyed vs c = c\<lparr>bufferLocked := True, running := running c @ [a]\<rparr>"
  using assms
  by (auto simp: onSurfaceDestroyed_def destroy_animation_for_def Let_def start_def split: if_splits)

lemma onSurfaceDestroyed_direct:
  assumes "destroy_animation_for (windowType c) = None"
  shows "onSurfaceDestroyed vs c =
           chrome_destroy (giveFocusToParent vs (c\<lparr>bufferLocked := True\<rparr>))"
  using assms
  by (auto simp: onSurfaceDestroyed_def destroy_animation_for_def Let_def split: if_splits)

lemma destruction_destroyed:
  "destroyed (finish_animations vs (onSurfaceDestroyed vs c))"
proof (cases "destroy_animation_for (windowType c)")
  case None
  then show ?thesis
    by (simp add: finish_animations_def fold_finished_destroyed onSurfaceDestroyed_direct chrome_destroy_def)
next
  case (Some a)
  then show ?thesis
    using destroy_animation_for_is_destroy [OF Some]
    by (simp add: finish_animations_def onSurfaceDestroyed_animated animation_finished_destroyed)
qed

lemma destruction_calls:
  "takeFocus_calls (finish_animations vs (onSurfaceDestroyed vs c)) =
     takeFocus_calls c @
     concat (replicate (Suc (length (filter is_destroy_animation (running c)))) (handoff vs (parentWlSurface c)))"
proof (cases "destroy_animation_for (windowType c)")
  case None
  then show ?thesis
    by (simp add: finish_animations_def fold_finished_calls onSurfaceDestroyed_direct
        chrome_destroy_def giveFocusToParent_calls)
next
  case (Some a)
  then show ?thesis
    using destroy_animation_for_is_destroy [OF Some]
    by (simp add: finish_animations_def fold_finished_calls onSurfaceDestroyed_animated
        animation_finished_calls concat_replicate_commute)
qed

text \<open>
  C5. When the stored parent has no view (the parent surface is null, or the lookup in
  \<open>viewsBySurface\<close> gives nothing), \<open>giveFocusToParent\<close> leaves the chrome as it is, and
  the destruction runs to its end whatever the window type: after the handler and the
  animations it started have finished, \<^verbatim>\<open>chrome.destroy()\<close> has been called and no
  \<^verbatim>\<open>takeFocus()\<close> call was made. The handlers are total: there is no error outcome.
\<close>

theorem vanished_parent_handoff_is_noop:
  assumes "lookup_view vs (parentWlSurface c) = None"
  shows "giveFocusToParent vs c = c \<and>
         destroyed (finish_animations vs (onSurfaceDestroyed vs c)) \<and>
         takeFocus_calls (finish_animations vs (onSurfaceDestroyed vs c)) = takeFocus_calls c"
proof -
  have "handoff vs (parentWlSurface c) = []"
    using assms by (simp add: handoff_def)
  then have "takeFocus_calls (finish_animations vs (onSurfaceDestroyed vs c)) = takeFocus_calls c"
    by (simp add: destruction_calls)
  moreover have "giveFocusToParent vs c = c"
    using assms by (simp add: giveFocusToParent_def)
  ultimately show ?thesis by (simp add: destruction_destroyed)
qed

theorem vanished_parent_handoff_is_noop_witness:
  "lookup_view no_views (parentWlSurface orphan_chrome) = None \<and>
   parentWlSurface orphan_chrome = Some 3 \<and>
   giveFocusToParent no_views orphan_chrome = orphan_chrome \<and>
   destroyed (finish_animations no_views (onSurfaceDestroyed no_views orphan_chrome)) \<and>
   takeFocus_calls (finish_animations no_views (onSurfaceDestroyed no_views orphan_chrome)) = []"
proof -
  have h: "lookup_view no_views (parentWlSurface orphan_chrome) = None"
    by (simp add: lookup_view_def orphan_chrome_def no_views_def)
  have "parentWlSurface orphan_chrome = Some 3 \<and> takeFocus_calls orphan_chrome = []"
    by (simp add: orphan_chrome_def Chrome_def)
  with h vanished_parent_handoff_is_noop [OF h] show ?thesis by simp
qed

subsection \<open>Events before the destruction\<close>

lemma last_known_type_Cons:
  "last_known_type (e # evs) t0 =
     last_known_type evs (case e of WindowTypeChanged t \<Rightarrow> t | _ \<Rightarrow> t0)"
  by (cases e) (simp_all add: last_known_type_def)

lemma last_known_parent_Cons:
  "last_known_parent (e # evs) p0 =
     last_known_parent evs (case e of ParentWlSurfaceChanged p \<Rightarrow> p | _ \<Rightarrow> p0)"
  by (cases e) (simp_all add: last_known_parent_def)

lemma deliver_windowType:
  "windowType (deliver vs e c) = (case e of WindowTypeChanged t \<Rightarrow> t | _ \<Rightarrow> windowType c)"
  by (cases e)
     (simp_all add: onMappedChanged_def setPosition_def start_def onWindowTypeChanged_def
        onParentWlSurfaceChanged_def onActivatedChanged_def onMinimizedChanged_def Let_def
        split: option.splits)

lemma deliver_parentWlSurface:
  "parentWlSurface (deliver vs e c) = (case e of ParentWlSurfaceChanged p \<Rightarrow> p | _ \<Rightarrow> parentWlSurface c)"
  by (cases e)
     (simp_all add: onMappedChanged_def setPosition_def start_def onWindowTypeChanged_def
        onParentWlSurfaceChanged_def onActivatedChanged_def onMinimizedChanged_def Let_def
        split: option.splits)

lemma deliver_takeFocus_calls: "takeFocus_calls (deliver vs e c) = takeFocus_calls c"
  by (cases e)
     (simp_all add: onMappedChanged_def setPosition_def start_def onWindowTypeChanged_def
        onParentWlSurfaceChanged_def onActivatedChanged_def onMinimizedChanged_def Let_def
        split: option.splits)

lemma deliver_destroy_running:
  "filter is_destroy_animation (running (deliver vs e c)) = filter is_destroy_animation (running c)"
  by (cases e)
     (simp_all add: onMappedChanged_def setPosition_def start_def onWindowTypeChanged_def
        onParentWlSurfaceChanged_def onActivatedChanged_def onMinimizedChanged_def Let_def
        split: option.splits)

lemma deliver_all_windowType:
  "windowType (deliver_all vs evs c) = last_known_type evs (windowType c)"
  unfolding deliver_all_def
proof (induction evs arbitrary: c)
  case Nil
  show ?case by (simp add: last_known_type_def)
next
  case (Cons e evs)
  show ?case by (simp add: Cons.IH deliver_windowType last_known_type_Cons del: deliver.simps)
qed

lemma deliver_all_parentWlSurface:
  "parentWlSurface (deliver_all vs evs c) = last_known_parent evs (parentWlSurface c)"
  unfolding deliver_all_def
proof (induction evs arbitrary: c)
  case Nil
  show ?case by (simp add: last_known_parent_def)
next
  case (Cons e evs)
  show ?case by (simp add: Cons.IH deliver_parentWlSurface last_known_parent_Cons del: deliver.simps)
qed

lemma deliver_all_takeFocus_calls: "takeFocus_calls (deliver_all vs evs c) = takeFocus_calls c"
  unfolding deliver_all_def
  by (induction evs arbitrary: c) (simp_all add: deliver_takeFocus_calls del: deliver.simps)

lemma deliver_all_destroy_running:
  "filter is_destroy_animation (running (deliver_all vs evs c)) = filter is_destroy_animation (running c)"
  unfolding deliver_all_def
  by (induction evs arbitrary: c) (simp_all add: deliver_destroy_running del: deliver.simps)

lemma onSurfaceDestroyed_running:
  "running (onSurfaceDestroyed vs c) =
     running c @ (case destroy_animation_for (windowType c) of Some a \<Rightarrow> [a] | None \<Rightarrow> [])"
proof (cases "destroy_animation_for (windowType c)")
  case None
  then show ?thesis by (simp add: onSurfaceDestroyed_direct chrome_destroy_def)
next
  case (Some a)
  then show ?thesis by (simp add: onSurfaceDestroyed_animated)
qed

text \<open>
  C6. After any sequence of change events, in any order, the chrome holds the last
  reported window type and the last reported parent surface, each independently of the
  other events. The destroyed handler then starts the destroy animation of exactly
  that type, and the focus handoff goes to the view of exactly that parent (provided no
  destroy animation was running on the chrome before, which would hand off again).
\<close>

theorem latest_values_used_at_destruction:
  "windowType (deliver_all vs evs c) = last_known_type evs (windowType c) \<and>
   parentWlSurface (deliver_all vs evs c) = last_known_parent evs (parentWlSurface c) \<and>
   running (onSurfaceDestroyed vs' (deliver_all vs evs c)) =
     running (deliver_all vs evs c) @
     (case destroy_animation_for (last_known_type evs (windowType c)) of Some a \<Rightarrow> [a] | None \<Rightarrow> []) \<and>
   (filter is_destroy_animation (running c) = [] \<longrightarrow>
      takeFocus_calls (finish_animations vs' (onSurfaceDestroyed vs' (deliver_all vs evs c))) =
        takeFocus_calls c @ handoff vs' (last_known_parent evs (parentWlSurface c)))"
proof -
  let ?c = "deliver_all vs evs c"
  have t: "windowType ?c = last_known_type evs (windowType c)"
    by (rule deliver_all_windowType)
  have p: "parentWlSurface ?c = last_known_parent evs (parentWlSurface c)"
    by (rule deliver_all_parentWlSurface)
  have r: "running (onSurfaceDestroyed vs' ?c) =
     running ?c @ (case destroy_animation_for (last_known_type evs (windowType c)) of Some a \<Rightarrow> [a] | None \<Rightarrow> [])"
    using onSurfaceDestroyed_running [of vs' ?c] t by simp
  have f: "filter is_destroy_animation (running c) = [] \<longrightarrow>
      takeFocus_calls (finish_animations vs' (onSurfaceDestroyed vs' ?c)) =
        takeFocus_calls c @ handoff vs' (last_known_parent evs (parentWlSurface c))"
    using destruction_calls [of vs' ?c] p
    by (simp add: deliver_all_destroy_running deliver_all_takeFocus_calls)
  from t p r f show ?thesis by blast
qed

theorem latest_values_used_at_destruction_witness:
  "filter is_destroy_animation (running (Chrome new_surface)) = [] \<and>
   windowType (deliver_all two_views late_events (Chrome new_surface)) = Qt_SubWindow \<and>
   parentWlSurface (deliver_all two_views late_events (Chrome new_surface)) = Some 4 \<and>
   running (onSurfaceDestroyed two_views (deliver_all two_views late_events (Chrome new_surface))) =
     running (deliver_all two_views late_events (Chrome new_surface)) @ [transientDestroyAnimation] \<and>
   takeFocus_calls (finish_animations two_views
      (onSurfaceDestroyed two_views (deliver_all two_views late_events (Chrome new_surface)))) = [40]"
proof -
  have a: "filter is_destroy_animation (running (Chrome new_surface)) = []"
    by (simp add: Chrome_def)
  have b: "last_known_type late_events (windowType (Chrome new_surface)) = Qt_SubWindow"
    by (simp add: last_known_type_def late_events_def)
  have c: "last_known_parent late_events (parentWlSurface (Chrome new_surface)) = Some 4"
    by (simp add: last_known_parent_def late_events_def)
  have d: "destroy_animation_for Qt_SubWindow = Some transientDestroyAnimation"
    by (simp add: destroy_animation_for_def Qt_Window_def Qt_SubWindow_def)
  have e: "handoff two_views (Some 4) = [40]"
    by (simp add: handoff_def lookup_view_def two_views_def)
  have f: "takeFocus_calls (Chrome new_surface) = []"
    by (simp add: Chrome_def)
  from a b c d e f
    latest_values_used_at_destruction [of two_views late_events "Chrome new_surface" two_views]
  show ?thesis by simp
qed

section \<open>Accessors without a current handler\<close>

text \<open>
  C10. With no current handler (\<open>m_currentHandler\<close> null) both accessors return:
  \<open>shell\<close> gives the empty string and \<open>shellDirectory\<close> the default-constructed
  directory.
\<close>

theorem accessors_without_handler:
  assumes "m_currentHandler s = None"
  shows "shell s = [] \<and> shellDirectory s = QDir []"
  using assms by (simp add: shell_def shellDirectory_def)

theorem accessors_without_handler_witness:
  "m_currentHandler (ShellManager example_objects) = None \<and>
   shell (ShellManager example_objects) = [] \<and>
   shellDirectory (ShellManager example_objects) = QDir []"
proof -
  have h: "m_currentHandler (ShellManager example_objects) = None"
    by (simp add: ShellManager_def)
  from h accessors_without_handler [OF h] show ?thesis by blast
qed

end
